theory Spec2Isabelle
  imports Main
begin

section \<open>The collection spreadsheet manager: \<open>mtgss_manager.py\<close>\<close>

text \<open>
  The script parses its command line, prepares the data folder, opens a session on a
  relational store and runs a fixed sequence of helper calls that depends on the requested
  operation. The helpers (\<open>manager_helper.read_mtgjson\<close>, \<open>read_xlsx\<close>, \<open>read_csv\<close>,
  \<open>write_xlsx\<close>, \<open>write_csv\<close>), the profiler and the session are outside the script: every
  one of their invocations is an observable call that either returns or raises. A run is
  modelled by the list of calls it makes, each with its outcome, and by the value or
  exception the script ends with.
\<close>

subsection \<open>Arguments\<close>

text \<open>
  The namespace built by \<open>get_parser\<close>. The attributes \<open>format\<close>, \<open>export_file\<close> and
  \<open>import_file\<close> are set by the sub-command that declares them; \<open>run_commands\<close> reads each
  of them only under the test for that sub-command.
\<close>

record args =
  data_path :: string
  include_online_only :: bool
  debug_stats :: bool
  spreadsheet_file :: string
  command :: string
  format :: string
  export_file :: string
  import_file :: string

text \<open>
  What \<open>get_parser\<close> accepts: the sub-command is required and is one of the four declared
  ones; \<open>--format\<close> of \<open>export\<close> and \<open>import\<close> has \<open>choices=['csv']\<close>.
\<close>

definition parsed :: "args \<Rightarrow> bool" where
  "parsed a = (command a \<in> {''create'', ''update'', ''export'', ''import''}
     \<and> (if command a \<in> {''export'', ''import''} then format a \<in> {''csv''} else True))"

subsection \<open>Calls, outcomes and traces\<close>

datatype call =
    MakeDirs string
  | ProfilingStart
  | ProfilingFinish
  | CreateEngine string
  | SessionMaker
  | NewSession
  | ReadMtgjson string bool
  | ReadXlsx string
  | ReadCsv string
  | WriteXlsx string
  | WriteCsv string
  | Commit
  | Close

datatype outcome = Returned | Raised

type_synonym event = "call \<times> outcome"

type_synonym trace = "event list"

text \<open>
  The environment decides, from everything that has happened so far, whether a call
  returns or raises. Nothing is assumed about it.
\<close>

type_synonym env = "trace \<Rightarrow> call \<Rightarrow> outcome"

datatype error =
    CallRaised call
  | NotAFolder string

type_synonym prog = "trace \<Rightarrow> trace \<times> (error + unit)"

definition invoke :: "env \<Rightarrow> call \<Rightarrow> prog" where
  "invoke env c tr =
     (case env tr c of
        Returned \<Rightarrow> (tr @ [(c, Returned)], Inr ())
      | Raised \<Rightarrow> (tr @ [(c, Raised)], Inl (CallRaised c)))"

definition skip :: prog where
  "skip tr = (tr, Inr ())"

definition raise :: "error \<Rightarrow> prog" where
  "raise e tr = (tr, Inl e)"

text \<open>Two statements in sequence: an exception of the first skips the second.\<close>

definition seq :: "prog \<Rightarrow> prog \<Rightarrow> prog" where
  "seq p q tr =
     (case p tr of
        (tr1, Inl e) \<Rightarrow> (tr1, Inl e)
      | (tr1, Inr u) \<Rightarrow> q tr1)"

text \<open>An \<open>if\<close> without \<open>else\<close>.\<close>

definition guarded :: "bool \<Rightarrow> prog \<Rightarrow> prog" where
  "guarded b p = (if b then p else skip)"

text \<open>
  \<open>try: p finally: f\<close>. The final block runs whatever \<open>p\<close> did; an exception of the final
  block replaces the pending one, otherwise the outcome of \<open>p\<close> stands.
\<close>

definition try_finally :: "prog \<Rightarrow> prog \<Rightarrow> prog" where
  "try_finally p f tr =
     (case p tr of
        (tr1, r) \<Rightarrow>
          (case f tr1 of
             (tr2, Inl e) \<Rightarrow> (tr2, Inl e)
           | (tr2, Inr u) \<Rightarrow> (tr2, r)))"

subsection \<open>\<open>run_commands\<close>\<close>

definition run_commands :: "env \<Rightarrow> args \<Rightarrow> prog" where
  "run_commands env a =
     seq (invoke env (CreateEngine ''sqlite://''))
    (seq (invoke env SessionMaker)
    (seq (invoke env NewSession)
    (try_finally
      (seq (invoke env (ReadMtgjson (data_path a) (include_online_only a)))
      (seq (invoke env Commit)
      (seq (guarded (command a \<in> {''update'', ''export''})
             (invoke env (ReadXlsx (spreadsheet_file a))))
      (seq (invoke env Commit)
      (seq (guarded (command a \<in> {''import''})
             (guarded (format a = ''csv'')
               (invoke env (ReadCsv (import_file a)))))
      (seq (invoke env Commit)
      (seq (guarded (command a \<in> {''create'', ''update''})
             (invoke env (WriteXlsx (spreadsheet_file a))))
           (guarded (command a \<in> {''export''})
             (guarded (format a = ''csv'')
               (invoke env (WriteCsv (export_file a))))))))))))
      (invoke env Close))))"

text \<open>The events of one run of \<open>run_commands\<close>, and what it ends with.\<close>

definition run_events :: "env \<Rightarrow> args \<Rightarrow> trace" where
  "run_events env a = fst (run_commands env a [])"

definition run_result :: "env \<Rightarrow> args \<Rightarrow> error + unit" where
  "run_result env a = snd (run_commands env a [])"

subsection \<open>Classifying calls\<close>

text \<open>The three load phases and the two target writes of \<open>run_commands\<close>.\<close>

fun is_load :: "call \<Rightarrow> bool" where
  "is_load (ReadMtgjson p b) = True"
| "is_load (ReadXlsx p) = True"
| "is_load (ReadCsv p) = True"
| "is_load c = False"

fun is_write :: "call \<Rightarrow> bool" where
  "is_write (WriteXlsx p) = True"
| "is_write (WriteCsv p) = True"
| "is_write c = False"

subsection \<open>Concrete environments and arguments\<close>

definition always_returns :: env where
  "always_returns tr c = Returned"

definition fails_on :: "call \<Rightarrow> env" where
  "fails_on c tr c' = (if c' = c then Raised else Returned)"

definition example_args :: "string \<Rightarrow> args" where
  "example_args cmd =
     \<lparr>data_path = ''data'', include_online_only = False, debug_stats = False,
      spreadsheet_file = ''cards.xlsx'', command = cmd, format = ''csv'',
      export_file = ''out.csv'', import_file = ''in.csv''\<rparr>"

subsection \<open>The call sequence of a run, as a list\<close>

text \<open>
  A straight sequence of calls, stopping at the first one that raises. It is used to
  describe \<open>run_commands\<close>; the equality with the definition above is
  \<open>run_commands_plan\<close>.
\<close>

fun invoke_all :: "env \<Rightarrow> call list \<Rightarrow> prog" where
  "invoke_all env [] tr = (tr, Inr ())"
| "invoke_all env (c # cs) tr =
     (case env tr c of
        Returned \<Rightarrow> invoke_all env cs (tr @ [(c, Returned)])
      | Raised \<Rightarrow> (tr @ [(c, Raised)], Inl (CallRaised c)))"

text \<open>
  The environment returns on each call of a list, made in turn after the history \<open>tr\<close>.
\<close>

definition returned :: "call \<Rightarrow> event" where
  "returned c = (c, Returned)"

fun returns_all :: "env \<Rightarrow> trace \<Rightarrow> call list \<Rightarrow> bool" where
  "returns_all env tr [] = True"
| "returns_all env tr (c # cs) = (env tr c = Returned \<and> returns_all env (tr @ [(c, Returned)]) cs)"

definition setup_calls :: "call list" where
  "setup_calls = [CreateEngine ''sqlite://'', SessionMaker, NewSession]"

definition phase_calls :: "args \<Rightarrow> call list" where
  "phase_calls a =
     [ReadMtgjson (data_path a) (include_online_only a), Commit]
     @ (if command a \<in> {''update'', ''export''} then [ReadXlsx (spreadsheet_file a)] else [])
     @ [Commit]
     @ (if command a \<in> {''import''} \<and> format a = ''csv'' then [ReadCsv (import_file a)] else [])
     @ [Commit]
     @ (if command a \<in> {''create'', ''update''} then [WriteXlsx (spreadsheet_file a)] else [])
     @ (if command a \<in> {''export''} \<and> format a = ''csv'' then [WriteCsv (export_file a)] else [])"

text \<open>
  Every way a sequence of calls can go: it stops at the first call that raises, or all
  calls return.
\<close>

fun outcomes :: "call list \<Rightarrow> (trace \<times> (error + unit)) list" where
  "outcomes [] = [([], Inr ())]"
| "outcomes (c # cs) =
     ([(c, Raised)], Inl (CallRaised c)) # map (\<lambda>(t, r). ((c, Returned) # t, r)) (outcomes cs)"

definition closing :: "trace \<times> (error + unit) \<Rightarrow> (trace \<times> (error + unit)) list" where
  "closing tr = [(fst tr @ [(Close, Returned)], snd tr), (fst tr @ [(Close, Raised)], Inl (CallRaised Close))]"

definition body_runs :: "args \<Rightarrow> (trace \<times> (error + unit)) list" where
  "body_runs a = concat (map closing (outcomes (phase_calls a)))"

definition after_setup :: "args \<Rightarrow> trace \<times> (error + unit) \<Rightarrow> (trace \<times> (error + unit)) list" where
  "after_setup a s =
     (case snd s of
        Inl e \<Rightarrow> [s]
      | Inr u \<Rightarrow> map (\<lambda>r. (fst s @ fst r, snd r)) (body_runs a))"

definition possible_runs :: "args \<Rightarrow> (trace \<times> (error + unit)) list" where
  "possible_runs a = concat (map (after_setup a) (outcomes setup_calls))"

subsection \<open>Files written by a call\<close>

text \<open>
  Modelled from the spec: the bodies of \<open>manager_helper.write_xlsx\<close> and
  \<open>manager_helper.write_csv\<close> are not part of the script. By their write contracts (4.2,
  4.3) each serializes the collection to the file whose path it is given; the read helpers
  and the session calls write no file.
\<close>

fun write_target :: "call \<Rightarrow> string option" where
  "write_target (WriteXlsx p) = Some p"
| "write_target (WriteCsv p) = Some p"
| "write_target c = None"

text \<open>
  Which paths name the same file is a fact of the file system (\<open>./x\<close> and \<open>x\<close>, an
  absolute path, a link), so it is a parameter: \<open>same q p\<close> says that the paths \<open>q\<close> and
  \<open>p\<close> name one file. A run writes the file at \<open>p\<close> when one of its write calls has a
  target that names the same file.
\<close>

definition writes_file :: "(string \<Rightarrow> string \<Rightarrow> bool) \<Rightarrow> string \<Rightarrow> trace \<Rightarrow> bool" where
  "writes_file same p evs =
     list_ex (\<lambda>e. case write_target (fst e) of None \<Rightarrow> False | Some q \<Rightarrow> same q p) evs"

text \<open>One such relation, for the examples: a leading \<open>./\<close> does not change the file.\<close>

fun strip_dot :: "string \<Rightarrow> string" where
  "strip_dot (CHR ''.'' # CHR ''/'' # p) = strip_dot p"
| "strip_dot p = p"

definition same_path :: "string \<Rightarrow> string \<Rightarrow> bool" where
  "same_path p q = (strip_dot p = strip_dot q)"

fun no_commit_after_write :: "trace \<Rightarrow> bool" where
  "no_commit_after_write [] = True"
| "no_commit_after_write (e # es) =
     ((if is_write (fst e) then Commit \<notin> fst ` set es else True) \<and> no_commit_after_write es)"

definition alias_args :: args where
  "alias_args = (example_args ''export'')\<lparr>export_file := ''cards.xlsx''\<rparr>"

definition dot_alias_args :: args where
  "dot_alias_args = (example_args ''export'')\<lparr>export_file := ''./cards.xlsx''\<rparr>"

subsection \<open>\<open>main\<close>\<close>

text \<open>
  What \<open>main\<close> asks of the file system: whether the data path exists and whether it is a
  directory. \<open>os.makedirs\<close> is a call that may raise; when it returns the path is a
  directory.
\<close>

datatype path_kind = Missing | Folder | Other

type_synonym fs = "string \<Rightarrow> path_kind"

definition path_exists :: "fs \<Rightarrow> string \<Rightarrow> bool" where
  "path_exists fs p = (fs p \<noteq> Missing)"

definition path_isdir :: "fs \<Rightarrow> string \<Rightarrow> bool" where
  "path_isdir fs p = (fs p = Folder)"

text \<open>
  \<open>main\<close> receives the namespace that \<open>parse_args\<close> returned. The profiler is started
  only with \<open>--debug_stats\<close>, so \<open>profiler is not None\<close> in the final block is the same
  test.
\<close>

definition main :: "env \<Rightarrow> fs \<Rightarrow> args \<Rightarrow> fs \<times> trace \<times> (error + unit)" where
  "main env fs a =
     (case (if \<not> path_exists fs (data_path a) then
              (case invoke env (MakeDirs (data_path a)) [] of
                 (tr, Inl e) \<Rightarrow> (fs, tr, Inl e)
               | (tr, Inr u) \<Rightarrow> (fs(data_path a := Folder), tr, Inr ()))
            else if \<not> path_isdir fs (data_path a) then
              (fs, raise (NotAFolder (data_path a)) [])
            else (fs, [], Inr ())) of
        (fs1, tr1, Inl e) \<Rightarrow> (fs1, tr1, Inl e)
      | (fs1, tr1, Inr u) \<Rightarrow>
          (fs1, seq (guarded (debug_stats a) (invoke env ProfilingStart))
                  (try_finally (run_commands env a)
                     (guarded (debug_stats a) (invoke env ProfilingFinish))) tr1))"

definition empty_fs :: fs where
  "empty_fs p = Missing"

subsection \<open>The relational store behind the session\<close>

text \<open>
  The engine and the session are library objects. Their calls are given the meaning they
  have in the library: an engine on the URL \<open>sqlite://\<close> is an in-memory database that
  starts empty and is never stored; an engine on a file URL starts from the database file
  and a commit writes to it; \<open>commit\<close> makes the working state the committed one; \<open>close\<close>
  (and a commit that raises) drops what is not committed.
\<close>

record store =
  engine :: "string option"
  committed :: trace
  working :: trace
  disk :: "string \<Rightarrow> trace"

definition in_memory :: "string \<Rightarrow> bool" where
  "in_memory url = (url = ''sqlite://'' \<or> url = ''sqlite:///:memory:'')"

text \<open>
  Modelled from the spec: the bodies of the \<open>manager_helper\<close> functions are not part of
  the script, so their effect on the session stays symbolic. The state of the store is the
  list of helper calls that have acted on it, each with its outcome (a helper that raises
  may have changed the working state before it raised).
\<close>

fun apply_event :: "store \<Rightarrow> event \<Rightarrow> store" where
  "apply_event st (CreateEngine url, Returned) =
     st\<lparr>engine := Some url,
        committed := (if in_memory url then [] else disk st url),
        working := (if in_memory url then [] else disk st url)\<rparr>"
| "apply_event st (Commit, Returned) =
     st\<lparr>committed := working st,
        disk := (case engine st of
                   None \<Rightarrow> disk st
                 | Some url \<Rightarrow> if in_memory url then disk st else (disk st)(url := working st))\<rparr>"
| "apply_event st (Commit, Raised) = st\<lparr>working := committed st\<rparr>"
| "apply_event st (Close, out) = st\<lparr>working := committed st\<rparr>"
| "apply_event st (c, out) =
     (if is_load c \<or> is_write c then st\<lparr>working := working st @ [(c, out)]\<rparr> else st)"

definition initial_store :: "(string \<Rightarrow> trace) \<Rightarrow> store" where
  "initial_store d = \<lparr>engine = None, committed = [], working = [], disk = d\<rparr>"

definition store_after :: "(string \<Rightarrow> trace) \<Rightarrow> trace \<Rightarrow> store" where
  "store_after d evs = foldl apply_event (initial_store d) evs"

fun loads_committed :: "trace \<Rightarrow> bool" where
  "loads_committed [] = True"
| "loads_committed (e # es) =
     ((if is_load (fst e) \<and> snd e = Returned
       then (case es of [] \<Rightarrow> False | e' # es' \<Rightarrow> fst e' = Commit)
       else True)
      \<and> loads_committed es)"

definition no_db :: "string \<Rightarrow> trace" where
  "no_db url = []"

definition old_db :: "string \<Rightarrow> trace" where
  "old_db url = [(ReadCsv ''earlier.csv'', Returned)]"

fun committed_loads :: "trace \<Rightarrow> trace" where
  "committed_loads (e # e' # es) =
     (if is_load (fst e) \<and> snd e = Returned \<and> e' = (Commit, Returned) then [e] else [])
     @ committed_loads (e' # es)"
| "committed_loads es = []"

section \<open>Properties\<close>

subsection \<open>The shape of a run\<close>

lemma invoke_all_single: "invoke env c = invoke_all env [c]"
  by (rule ext) (simp add: invoke_def split: outcome.splits)

lemma seq_invoke_all: "seq (invoke_all env xs) (invoke_all env ys) = invoke_all env (xs @ ys)"
proof (rule ext)
  fix tr show "seq (invoke_all env xs) (invoke_all env ys) tr = invoke_all env (xs @ ys) tr"
    by (induction xs arbitrary: tr) (simp_all add: seq_def split: outcome.splits)
qed

lemma guarded_invoke: "guarded b (invoke_all env xs) = invoke_all env (if b then xs else [])"
  by (rule ext) (simp add: guarded_def skip_def)

lemma guarded_guarded: "guarded b (guarded b' p) = guarded (b \<and> b') p"
  by (simp add: guarded_def)

lemma seq_assoc: "seq p (seq q r) = seq (seq p q) r"
  by (rule ext) (simp add: seq_def split: prod.splits sum.splits)

lemma body_plan:
  "seq (invoke env (ReadMtgjson (data_path a) (include_online_only a)))
  (seq (invoke env Commit)
  (seq (guarded (command a \<in> {''update'', ''export''})
         (invoke env (ReadXlsx (spreadsheet_file a))))
  (seq (invoke env Commit)
  (seq (guarded (command a \<in> {''import''})
         (guarded (format a = ''csv'')
           (invoke env (ReadCsv (import_file a)))))
  (seq (invoke env Commit)
  (seq (guarded (command a \<in> {''create'', ''update''})
         (invoke env (WriteXlsx (spreadsheet_file a))))
       (guarded (command a \<in> {''export''})
         (guarded (format a = ''csv'')
           (invoke env (WriteCsv (export_file a)))))))))))
   = invoke_all env (phase_calls a)"
  by (simp add: guarded_guarded guarded_invoke invoke_all_single seq_invoke_all phase_calls_def)

lemma setup_plan:
  "seq (invoke env (CreateEngine ''sqlite://'')) (seq (invoke env SessionMaker) (seq (invoke env NewSession) p))
   = seq (invoke_all env setup_calls) p"
  unfolding seq_assoc invoke_all_single seq_invoke_all setup_calls_def
  by (simp only: append.simps)

lemma run_commands_plan:
  "run_commands env a =
     seq (invoke_all env setup_calls)
       (try_finally (invoke_all env (phase_calls a)) (invoke env Close))"
  unfolding run_commands_def body_plan setup_plan ..

lemma invoke_all_outcomes: "\<exists>w \<in> set (outcomes cs). invoke_all env cs tr = (tr @ fst w, snd w)"
proof (induction cs arbitrary: tr)
  case Nil
  show ?case by simp
next
  case (Cons c cs)
  show ?case
  proof (cases "env tr c")
    case Returned
    from Cons.IH[of "tr @ [(c, Returned)]"] obtain w where
      w: "w \<in> set (outcomes cs)"
         "invoke_all env cs (tr @ [(c, Returned)]) = ((tr @ [(c, Returned)]) @ fst w, snd w)"
      by blast
    let ?w = "((c, Returned) # fst w, snd w)"
    have "?w \<in> set (outcomes (c # cs))"
      using w(1) by (force simp: case_prod_unfold image_iff)
    moreover have "invoke_all env (c # cs) tr = (tr @ fst ?w, snd ?w)"
      using Returned w(2) by simp
    ultimately show ?thesis by (rule rev_bexI)
  next
    case Raised
    then show ?thesis by simp
  qed
qed

lemma try_finally_close:
  "try_finally p (invoke env Close) tr \<in> set (closing (p tr))"
  by (cases "p tr") (auto simp: try_finally_def invoke_def closing_def split: outcome.splits)

lemma possible_runs_body:
  assumes "s \<in> set (outcomes setup_calls)" "snd s = Inr u"
    and "b \<in> set (outcomes (phase_calls a))" "r \<in> set (closing b)"
  shows "(fst s @ fst r, snd r) \<in> set (possible_runs a)"
proof -
  have "r \<in> set (body_runs a)"
    using assms(3,4) by (auto simp: body_runs_def)
  then have "(fst s @ fst r, snd r) \<in> set (after_setup a s)"
    using assms(2) by (simp add: after_setup_def)
  with assms(1) show ?thesis
    by (auto simp: possible_runs_def)
qed

lemma possible_runs_setup:
  assumes "s \<in> set (outcomes setup_calls)" "snd s = Inl e"
  shows "s \<in> set (possible_runs a)"
proof -
  have "s \<in> set (after_setup a s)"
    using assms(2) by (simp add: after_setup_def)
  with assms(1) show ?thesis
    by (auto simp: possible_runs_def)
qed

lemma run_commands_possible: "run_commands env a [] \<in> set (possible_runs a)"
proof -
  obtain s where s: "s \<in> set (outcomes setup_calls)" "invoke_all env setup_calls [] = (fst s, snd s)"
    using invoke_all_outcomes[of setup_calls env "[]"] by auto
  show ?thesis
  proof (cases "snd s")
    case (Inl e)
    have "run_commands env a [] = (fst s, snd s)"
      using s(2) Inl by (simp add: run_commands_plan seq_def)
    then have "run_commands env a [] = s" by simp
    with possible_runs_setup[OF s(1) Inl] show ?thesis by simp
  next
    case (Inr u)
    obtain b where b: "b \<in> set (outcomes (phase_calls a))"
       "invoke_all env (phase_calls a) (fst s) = (fst s @ fst b, snd b)"
      using invoke_all_outcomes[of "phase_calls a" env "fst s"] by auto
    have "try_finally (invoke_all env (phase_calls a)) (invoke env Close) (fst s)
        \<in> set (closing (fst s @ fst b, snd b))"
      using try_finally_close[of "invoke_all env (phase_calls a)" env "fst s"] b by simp
    then obtain r where r: "r \<in> set (closing b)"
      "try_finally (invoke_all env (phase_calls a)) (invoke env Close) (fst s) = (fst s @ fst r, snd r)"
      by (auto simp: closing_def)
    with s Inr have "run_commands env a [] = (fst s @ fst r, snd r)"
      by (simp add: run_commands_plan seq_def)
    with possible_runs_body[OF s(1) Inr b(1) r(1)] show ?thesis by simp
  qed
qed

lemma run_events_possible: "(run_events env a, run_result env a) \<in> set (possible_runs a)"
  using run_commands_possible[of env a] by (simp add: run_events_def run_result_def)

lemmas enum = possible_runs_def after_setup_def body_runs_def closing_def setup_calls_def

lemma phase_calls_cases [case_names create update export_csv export_other import_csv import_other other]:
  obtains
    "command a = ''create''"
    "phase_calls a = [ReadMtgjson (data_path a) (include_online_only a), Commit, Commit, Commit,
       WriteXlsx (spreadsheet_file a)]"
  | "command a = ''update''"
    "phase_calls a = [ReadMtgjson (data_path a) (include_online_only a), Commit,
       ReadXlsx (spreadsheet_file a), Commit, Commit, WriteXlsx (spreadsheet_file a)]"
  | "command a = ''export''" "format a = ''csv''"
    "phase_calls a = [ReadMtgjson (data_path a) (include_online_only a), Commit,
       ReadXlsx (spreadsheet_file a), Commit, Commit, WriteCsv (export_file a)]"
  | "command a = ''export''" "format a \<noteq> ''csv''"
    "phase_calls a = [ReadMtgjson (data_path a) (include_online_only a), Commit,
       ReadXlsx (spreadsheet_file a), Commit, Commit]"
  | "command a = ''import''" "format a = ''csv''"
    "phase_calls a = [ReadMtgjson (data_path a) (include_online_only a), Commit, Commit,
       ReadCsv (import_file a), Commit]"
  | "command a = ''import''" "format a \<noteq> ''csv''"
    "phase_calls a = [ReadMtgjson (data_path a) (include_online_only a), Commit, Commit, Commit]"
  | "command a \<notin> {''create'', ''update'', ''export'', ''import''}"
    "phase_calls a = [ReadMtgjson (data_path a) (include_online_only a), Commit, Commit, Commit]"
proof (cases "command a \<in> {''create'', ''update'', ''export'', ''import''}")
  case False
  then have "phase_calls a = [ReadMtgjson (data_path a) (include_online_only a), Commit, Commit, Commit]"
    by (simp add: phase_calls_def)
  with False show ?thesis using that(7) by blast
next
  case True
  then consider "command a = ''create''" | "command a = ''update''"
    | "command a = ''export''" | "command a = ''import''" by auto
  then show ?thesis
  proof cases
    case 1 then show ?thesis using that(1) by (simp add: phase_calls_def)
  next
    case 2 then show ?thesis using that(2) by (simp add: phase_calls_def)
  next
    case 3 then show ?thesis using that(3,4) by (cases "format a = ''csv''") (simp_all add: phase_calls_def)
  next
    case 4 then show ?thesis using that(5,6) by (cases "format a = ''csv''") (simp_all add: phase_calls_def)
  qed
qed

text \<open>A run in an environment that returns on the first calls of the plan.\<close>

lemma returns_all_invoke_all:
  "returns_all env tr cs \<Longrightarrow> invoke_all env cs tr = (tr @ map returned cs, Inr ())"
  by (induction cs arbitrary: tr) (simp_all add: returned_def)

lemma returns_all_append:
  "returns_all env tr (xs @ ys) = (returns_all env tr xs \<and> returns_all env (tr @ map returned xs) ys)"
  by (induction xs arbitrary: tr) (simp_all add: returned_def)

lemma body_first:
  "\<exists>out rest r. try_finally (invoke_all env (c # cs)) (invoke env Close) tr = (tr @ (c, out) # rest, r)"
proof (cases "env tr c")
  case Raised
  then show ?thesis
    by (cases "env (tr @ [(c, Raised)]) Close") (simp_all add: try_finally_def invoke_def)
next
  case Returned
  obtain w where w: "invoke_all env cs (tr @ [(c, Returned)]) = ((tr @ [(c, Returned)]) @ fst w, snd w)"
    using invoke_all_outcomes[of cs env "tr @ [(c, Returned)]"] by blast
  with Returned show ?thesis
    by (cases "env (tr @ (c, Returned) # fst w) Close") (simp_all add: try_finally_def invoke_def)
qed

lemma run_events_prefix:
  assumes env: "returns_all env [] (setup_calls @ pre)"
    and plan: "phase_calls a = pre @ c # post"
  shows "\<exists>out rest. run_events env a = map returned (setup_calls @ pre) @ (c, out) # rest"
proof -
  from env have s: "returns_all env [] setup_calls"
    and p: "returns_all env (map returned setup_calls) pre"
    by (simp_all add: returns_all_append)
  have "invoke_all env (phase_calls a) (map returned setup_calls)
      = seq (invoke_all env pre) (invoke_all env (c # post)) (map returned setup_calls)"
    by (simp only: plan seq_invoke_all)
  also have "\<dots> = invoke_all env (c # post) (map returned (setup_calls @ pre))"
    using returns_all_invoke_all[OF p] by (simp add: seq_def)
  finally have body: "invoke_all env (phase_calls a) (map returned setup_calls)
      = invoke_all env (c # post) (map returned (setup_calls @ pre))" .
  obtain out rest r where
    "try_finally (invoke_all env (c # post)) (invoke env Close) (map returned (setup_calls @ pre))
       = (map returned (setup_calls @ pre) @ (c, out) # rest, r)"
    using body_first by blast
  then have "try_finally (invoke_all env (phase_calls a)) (invoke env Close) (map returned setup_calls)
       = (map returned (setup_calls @ pre) @ (c, out) # rest, r)"
    using body by (simp add: try_finally_def)
  then have "run_commands env a [] = (map returned (setup_calls @ pre) @ (c, out) # rest, r)"
    using returns_all_invoke_all[OF s] by (simp add: run_commands_plan seq_def)
  then show ?thesis by (auto simp: run_events_def)
qed

lemmas run_defs = run_events_def run_result_def run_commands_def seq_def try_finally_def
  guarded_def invoke_def skip_def always_returns_def fails_on_def example_args_def

subsection \<open>Claims about \<open>run_commands\<close>\<close>

text \<open>
  C9. On every execution path of \<open>run_commands\<close> on which the session exists (the call
  \<open>session_factory()\<close> returned), including every path where a load or write phase or a
  commit raises, \<open>session.close()\<close> is the last call of the run and the only call of
  \<open>close\<close>; if \<open>close\<close> itself raises, that is the exception the run ends with.
\<close>

theorem session_closed_on_every_path:
  "(NewSession, Returned) \<in> set (run_events env a) \<Longrightarrow>
     fst (last (run_events env a)) = Close
     \<and> Close \<notin> fst ` set (butlast (run_events env a))
     \<and> (snd (last (run_events env a)) = Raised \<longrightarrow> run_result env a = Inl (CallRaised Close))"
  using run_events_possible[of env a]
  by (cases rule: phase_calls_cases[of a]) (auto simp: enum)

theorem session_closed_on_every_path_witness:
  "(NewSession, Returned) \<in> set (run_events (fails_on (ReadXlsx ''cards.xlsx'')) (example_args ''update''))
   \<and> last (run_events (fails_on (ReadXlsx ''cards.xlsx'')) (example_args ''update'')) = (Close, Returned)
   \<and> run_result (fails_on (ReadXlsx ''cards.xlsx'')) (example_args ''update'')
       = Inl (CallRaised (ReadXlsx ''cards.xlsx''))"
  using session_closed_on_every_path[of "fails_on (ReadXlsx ''cards.xlsx'')" "example_args ''update''"]
  by (simp add: run_defs)

text \<open>
  C3. For every run and every operation, if a load phase (catalog load, prior spreadsheet
  read or import read) raises, all remaining phases are skipped: the failed call is followed
  by \<open>session.close()\<close> only, no call of \<open>write_xlsx\<close> or \<open>write_csv\<close> occurs anywhere
  in the run, and the run ends with an exception.
\<close>

theorem load_failure_skips_rest:
  "(c, Raised) \<in> set (run_events env a) \<Longrightarrow> is_load c \<Longrightarrow>
     (\<forall>e \<in> set (run_events env a). \<not> is_write (fst e))
     \<and> (\<exists>pre out. run_events env a = pre @ [(c, Raised), (Close, out)])
     \<and> run_result env a \<noteq> Inr ()"
  using run_events_possible[of env a]
  by (cases rule: phase_calls_cases[of a]) (auto simp: enum)

theorem load_failure_skips_rest_witness:
  "(ReadCsv ''in.csv'', Raised) \<in> set (run_events (fails_on (ReadCsv ''in.csv'')) (example_args ''import''))
   \<and> is_load (ReadCsv ''in.csv'')
   \<and> filter (\<lambda>e. is_write (fst e)) (run_events (fails_on (ReadCsv ''in.csv'')) (example_args ''import'')) = []
   \<and> run_result (fails_on (ReadCsv ''in.csv'')) (example_args ''import'') = Inl (CallRaised (ReadCsv ''in.csv''))"
  using load_failure_skips_rest[of "ReadCsv ''in.csv''" "fails_on (ReadCsv ''in.csv'')" "example_args ''import''"]
  by (simp add: run_defs)

lemmas run_defs2 = run_defs alias_args_def dot_alias_args_def writes_file_def same_path_def

text \<open>
  C4. For every operation (indeed for every value of \<open>command\<close>): in every environment
  in which the three calls that set the session up return, the next call of the run is
  \<open>read_mtgjson\<close> with the data path and the \<open>include_online_only\<close> flag; and in every
  run whatsoever, no spreadsheet read, import read or write is called before that call of
  \<open>read_mtgjson\<close> (so none at all in a run that does not reach it).
\<close>

theorem catalog_load_first:
  "(returns_all env [] [CreateEngine ''sqlite://'', SessionMaker, NewSession] \<longrightarrow>
      (\<exists>out rest. run_events env a =
         [(CreateEngine ''sqlite://'', Returned), (SessionMaker, Returned), (NewSession, Returned),
          (ReadMtgjson (data_path a) (include_online_only a), out)] @ rest))
   \<and> (\<forall>e \<in> set (takeWhile (\<lambda>e. fst e \<noteq> ReadMtgjson (data_path a) (include_online_only a))
                    (run_events env a)).
         \<not> is_load (fst e) \<and> \<not> is_write (fst e))"
proof (intro conjI impI)
  assume "returns_all env [] [CreateEngine ''sqlite://'', SessionMaker, NewSession]"
  then have "returns_all env [] (setup_calls @ [])" by (simp add: setup_calls_def)
  moreover have "\<exists>post. phase_calls a = [] @ ReadMtgjson (data_path a) (include_online_only a) # post"
    by (simp add: phase_calls_def)
  ultimately show "\<exists>out rest. run_events env a =
         [(CreateEngine ''sqlite://'', Returned), (SessionMaker, Returned), (NewSession, Returned),
          (ReadMtgjson (data_path a) (include_online_only a), out)] @ rest"
    using run_events_prefix[of env "[]" a] by (fastforce simp: setup_calls_def returned_def)
next
  show "\<forall>e \<in> set (takeWhile (\<lambda>e. fst e \<noteq> ReadMtgjson (data_path a) (include_online_only a))
                    (run_events env a)).
         \<not> is_load (fst e) \<and> \<not> is_write (fst e)"
    using run_events_possible[of env a]
    by (cases rule: phase_calls_cases[of a]) (auto simp: enum)
qed

theorem catalog_load_first_witness:
  "returns_all always_returns [] [CreateEngine ''sqlite://'', SessionMaker, NewSession]
   \<and> take 4 (run_events always_returns (example_args ''import'')) =
        [(CreateEngine ''sqlite://'', Returned), (SessionMaker, Returned), (NewSession, Returned),
         (ReadMtgjson ''data'' False, Returned)]
   \<and> takeWhile (\<lambda>e. fst e \<noteq> ReadMtgjson ''data'' False)
         (run_events always_returns (example_args ''import'')) =
        [(CreateEngine ''sqlite://'', Returned), (SessionMaker, Returned), (NewSession, Returned)]"
  using catalog_load_first[of always_returns "example_args ''import''"]
  by (simp add: run_defs)

text \<open>
  C5. \<open>read_xlsx\<close> is called only when the operation is \<open>update\<close> or \<open>export\<close>, and only
  on \<open>spreadsheet_file\<close>; for \<open>create\<close> and \<open>import\<close> it is never called. For \<open>update\<close>
  and \<open>export\<close>, in every environment in which the session set-up, the catalog load and
  its commit return, \<open>read_xlsx\<close> on \<open>spreadsheet_file\<close> is the very next call.
\<close>

theorem prior_read_iff_update_or_export:
  "((\<exists>p out. (ReadXlsx p, out) \<in> set (run_events env a)) \<longrightarrow> command a \<in> {''update'', ''export''})
   \<and> (\<forall>p out. (ReadXlsx p, out) \<in> set (run_events env a) \<longrightarrow> p = spreadsheet_file a)
   \<and> (command a \<in> {''update'', ''export''}
        \<and> returns_all env [] [CreateEngine ''sqlite://'', SessionMaker, NewSession,
             ReadMtgjson (data_path a) (include_online_only a), Commit]
        \<longrightarrow> (\<exists>out rest. run_events env a =
               [(CreateEngine ''sqlite://'', Returned), (SessionMaker, Returned), (NewSession, Returned),
                (ReadMtgjson (data_path a) (include_online_only a), Returned), (Commit, Returned),
                (ReadXlsx (spreadsheet_file a), out)] @ rest))"
proof (intro conjI)
  show "(\<exists>p out. (ReadXlsx p, out) \<in> set (run_events env a)) \<longrightarrow> command a \<in> {''update'', ''export''}"
    using run_events_possible[of env a]
    by (cases rule: phase_calls_cases[of a]) (auto simp: enum)
  show "\<forall>p out. (ReadXlsx p, out) \<in> set (run_events env a) \<longrightarrow> p = spreadsheet_file a"
    using run_events_possible[of env a]
    by (cases rule: phase_calls_cases[of a]) (auto simp: enum)
  show "command a \<in> {''update'', ''export''}
        \<and> returns_all env [] [CreateEngine ''sqlite://'', SessionMaker, NewSession,
             ReadMtgjson (data_path a) (include_online_only a), Commit]
        \<longrightarrow> (\<exists>out rest. run_events env a =
               [(CreateEngine ''sqlite://'', Returned), (SessionMaker, Returned), (NewSession, Returned),
                (ReadMtgjson (data_path a) (include_online_only a), Returned), (Commit, Returned),
                (ReadXlsx (spreadsheet_file a), out)] @ rest)"
  proof
    let ?pre = "[ReadMtgjson (data_path a) (include_online_only a), Commit]"
    assume h: "command a \<in> {''update'', ''export''}
        \<and> returns_all env [] [CreateEngine ''sqlite://'', SessionMaker, NewSession,
             ReadMtgjson (data_path a) (include_online_only a), Commit]"
    then have "returns_all env [] (setup_calls @ ?pre)" by (simp add: setup_calls_def)
    moreover from h have "\<exists>post. phase_calls a = ?pre @ ReadXlsx (spreadsheet_file a) # post"
      by (simp add: phase_calls_def)
    ultimately show "\<exists>out rest. run_events env a =
               [(CreateEngine ''sqlite://'', Returned), (SessionMaker, Returned), (NewSession, Returned),
                (ReadMtgjson (data_path a) (include_online_only a), Returned), (Commit, Returned),
                (ReadXlsx (spreadsheet_file a), out)] @ rest"
      using run_events_prefix[of env ?pre a] by (fastforce simp: setup_calls_def returned_def)
  qed
qed

theorem prior_read_iff_update_or_export_witness:
  "command (example_args ''export'') \<in> {''update'', ''export''}
   \<and> returns_all always_returns [] [CreateEngine ''sqlite://'', SessionMaker, NewSession,
         ReadMtgjson ''data'' False, Commit]
   \<and> take 6 (run_events always_returns (example_args ''export'')) =
        [(CreateEngine ''sqlite://'', Returned), (SessionMaker, Returned), (NewSession, Returned),
         (ReadMtgjson ''data'' False, Returned), (Commit, Returned),
         (ReadXlsx ''cards.xlsx'', Returned)]
   \<and> filter (\<lambda>e. fst e = ReadXlsx ''cards.xlsx'')
         (run_events always_returns (example_args ''create'')) = []"
  using prior_read_iff_update_or_export[of always_returns "example_args ''export''"]
        prior_read_iff_update_or_export[of always_returns "example_args ''create''"]
  by (simp add: run_defs)

text \<open>
  C6. When the write phase is reached (all three commits returned), \<open>write_xlsx\<close> is called
  exactly when the operation is \<open>create\<close> or \<open>update\<close>, on \<open>spreadsheet_file\<close>, and
  \<open>write_csv\<close> is called exactly when the operation is \<open>export\<close> with format \<open>csv\<close>, on
  \<open>export_file\<close>; no commit follows a write call.
\<close>

theorem write_phase_targets:
  "count_list (run_events env a) (Commit, Returned) = 3 \<Longrightarrow>
     ((\<exists>p out. (WriteXlsx p, out) \<in> set (run_events env a)) \<longleftrightarrow> command a \<in> {''create'', ''update''})
   \<and> (\<forall>p out. (WriteXlsx p, out) \<in> set (run_events env a) \<longrightarrow> p = spreadsheet_file a)
   \<and> ((\<exists>p out. (WriteCsv p, out) \<in> set (run_events env a)) \<longleftrightarrow> command a = ''export'' \<and> format a = ''csv'')
   \<and> (\<forall>p out. (WriteCsv p, out) \<in> set (run_events env a) \<longrightarrow> p = export_file a)
   \<and> no_commit_after_write (run_events env a)"
  using run_events_possible[of env a]
  by (cases rule: phase_calls_cases[of a]) (auto simp: enum)

theorem write_phase_targets_witness:
  "count_list (run_events always_returns (example_args ''update'')) (Commit, Returned) = 3
   \<and> (WriteXlsx ''cards.xlsx'', Returned) \<in> set (run_events always_returns (example_args ''update''))
   \<and> no_commit_after_write (run_events always_returns (example_args ''update''))"
  using write_phase_targets[of always_returns "example_args ''update''"]
  by (simp add: run_defs)

text \<open>
  C10, as stated: an \<open>export\<close> run never writes the user's spreadsheet file. It fails when
  the export target is the spreadsheet itself: \<open>write_csv\<close> is then called on the
  spreadsheet's path.
\<close>

theorem export_overwrites_spreadsheet_counterexample:
  "command alias_args = ''export''
   \<and> run_result always_returns alias_args = Inr ()
   \<and> (WriteCsv (spreadsheet_file alias_args), Returned) \<in> set (run_events always_returns alias_args)
   \<and> writes_file same_path (spreadsheet_file alias_args) (run_events always_returns alias_args)"
  by (simp add: run_defs2)

text \<open>The same happens when the export target names the spreadsheet by another path.\<close>

lemma export_overwrites_spreadsheet_by_alias:
  "export_file dot_alias_args \<noteq> spreadsheet_file dot_alias_args
   \<and> same_path (export_file dot_alias_args) (spreadsheet_file dot_alias_args)
   \<and> writes_file same_path (spreadsheet_file dot_alias_args) (run_events always_returns dot_alias_args)"
  by (simp add: run_defs2)

text \<open>
  C10, amended. For the \<open>export\<close> operation no path of the run calls \<open>write_xlsx\<close>, and
  the only write call it can make is \<open>write_csv\<close> on \<open>export_file\<close>. So, whether the run
  succeeds or fails, no call of the run writes the spreadsheet file, provided that
  \<open>export_file\<close> does not name the same file as \<open>spreadsheet_file\<close> (under whatever
  relation tells which paths name the same file).
\<close>

theorem export_write_calls:
  "command a = ''export'' \<Longrightarrow>
     (\<forall>p out. (WriteXlsx p, out) \<notin> set (run_events env a))
   \<and> (\<forall>e \<in> set (run_events env a). is_write (fst e) \<longrightarrow> fst e = WriteCsv (export_file a))
   \<and> (\<not> same (export_file a) (spreadsheet_file a)
        \<longrightarrow> \<not> writes_file same (spreadsheet_file a) (run_events env a))"
  using run_events_possible[of env a]
  by (cases rule: phase_calls_cases[of a]) (auto simp: enum writes_file_def list_ex_iff)

theorem export_write_calls_witness:
  "command (example_args ''export'') = ''export''
   \<and> \<not> same_path (export_file (example_args ''export'')) (spreadsheet_file (example_args ''export''))
   \<and> (WriteCsv ''out.csv'', Returned) \<in> set (run_events always_returns (example_args ''export''))
   \<and> \<not> writes_file same_path (spreadsheet_file (example_args ''export''))
          (run_events always_returns (example_args ''export''))"
  using export_write_calls[of "example_args ''export''" always_returns same_path]
  by (simp add: run_defs2)

text \<open>The example arguments are ones that \<open>get_parser\<close> accepts.\<close>

lemma example_args_parsed:
  "parsed (example_args ''create'')" "parsed (example_args ''update'')"
  "parsed (example_args ''export'')" "parsed (example_args ''import'')" "parsed alias_args"
  "parsed dot_alias_args"
  by (simp_all add: parsed_def example_args_def alias_args_def dot_alias_args_def)

text \<open>
  C1. The claim: an \<open>import\<close> run backs the spreadsheet up and then overwrites it with the
  merged data. The code: an \<open>import\<close> run in which every call returns reads the catalog
  and the import file, commits, and closes the session. It makes no backup and never
  calls \<open>write_xlsx\<close>: \<open>import\<close> is missing from the test that guards the spreadsheet
  write.
\<close>

theorem import_run_writes_nothing:
  "run_events always_returns (example_args ''import'') =
     [(CreateEngine ''sqlite://'', Returned), (SessionMaker, Returned), (NewSession, Returned),
      (ReadMtgjson ''data'' False, Returned), (Commit, Returned), (Commit, Returned),
      (ReadCsv ''in.csv'', Returned), (Commit, Returned), (Close, Returned)]
   \<and> run_result always_returns (example_args ''import'') = Inr ()"
  by (simp add: run_defs)

subsection \<open>Claims about \<open>main\<close>\<close>

lemma run_commands_from: "\<exists>w \<in> set (possible_runs a). run_commands env a tr = (tr @ fst w, snd w)"
proof -
  obtain s where s: "s \<in> set (outcomes setup_calls)"
      "invoke_all env setup_calls tr = (tr @ fst s, snd s)"
    using invoke_all_outcomes[of setup_calls env tr] by auto
  show ?thesis
  proof (cases "snd s")
    case (Inl e)
    have "run_commands env a tr = (tr @ fst s, snd s)"
      using s(2) Inl by (simp add: run_commands_plan seq_def)
    with possible_runs_setup[OF s(1) Inl] show ?thesis by blast
  next
    case (Inr u)
    obtain b where b: "b \<in> set (outcomes (phase_calls a))"
       "invoke_all env (phase_calls a) (tr @ fst s) = ((tr @ fst s) @ fst b, snd b)"
      using invoke_all_outcomes[of "phase_calls a" env "tr @ fst s"] by auto
    have "try_finally (invoke_all env (phase_calls a)) (invoke env Close) (tr @ fst s)
        \<in> set (closing ((tr @ fst s) @ fst b, snd b))"
      using try_finally_close[of "invoke_all env (phase_calls a)" env "tr @ fst s"] b by simp
    then obtain r where r: "r \<in> set (closing b)"
      "try_finally (invoke_all env (phase_calls a)) (invoke env Close) (tr @ fst s)
         = ((tr @ fst s) @ fst r, snd r)"
      by (auto simp: closing_def)
    with s Inr have "run_commands env a tr = (tr @ fst (fst s @ fst r, snd r), snd (fst s @ fst r, snd r))"
      by (simp add: run_commands_plan seq_def)
    with possible_runs_body[OF s(1) Inr b(1) r(1)] show ?thesis by blast
  qed
qed

lemma possible_runs_first:
  "w \<in> set (possible_runs a) \<Longrightarrow> \<exists>out rest. fst w = (CreateEngine ''sqlite://'', out) # rest"
  by (auto simp: possible_runs_def after_setup_def setup_calls_def)

lemma run_commands_first:
  "\<exists>out rest r. run_commands env a tr = (tr @ (CreateEngine ''sqlite://'', out) # rest, r)"
  using run_commands_from[of a env tr] possible_runs_first[of _ a] by (metis prod.collapse)

lemma finish_extends: "\<exists>rest r. guarded b (invoke env c) tr = (tr @ rest, r)"
  by (cases b; cases "env tr c") (simp_all add: guarded_def invoke_def skip_def)

lemma profiled_run_first:
  "\<exists>out rest r. try_finally (run_commands env a) (guarded b (invoke env c)) tr
     = (tr @ (CreateEngine ''sqlite://'', out) # rest, r)"
proof -
  obtain out rest r where run: "run_commands env a tr = (tr @ (CreateEngine ''sqlite://'', out) # rest, r)"
    using run_commands_first[of env a tr] by blast
  obtain rest' r' where fin: "guarded b (invoke env c) (tr @ (CreateEngine ''sqlite://'', out) # rest)
      = ((tr @ (CreateEngine ''sqlite://'', out) # rest) @ rest', r')"
    using finish_extends[of b env c "tr @ (CreateEngine ''sqlite://'', out) # rest"] by blast
  show ?thesis
    using run fin by (cases r') (simp_all add: try_finally_def)
qed

lemmas main_defs = main_def path_exists_def path_isdir_def raise_def empty_fs_def run_defs

text \<open>
  C2, as stated: a run whose data path is missing aborts with an error before any session
  work. It does not: \<open>main\<close> creates the missing folder and goes on, here to a \<open>create\<close>
  run that loads the catalog from the new, empty folder and writes the spreadsheet.
\<close>

theorem missing_data_path_counterexample:
  "\<not> path_exists empty_fs (data_path (example_args ''create''))
   \<and> snd (snd (main always_returns empty_fs (example_args ''create''))) = Inr ()
   \<and> (ReadMtgjson ''data'' False, Returned) \<in> set (fst (snd (main always_returns empty_fs (example_args ''create''))))
   \<and> (WriteXlsx ''cards.xlsx'', Returned) \<in> set (fst (snd (main always_returns empty_fs (example_args ''create''))))"
  by (simp add: main_defs)

text \<open>
  C2, amended. When the data path exists and is not a directory, the run aborts with an
  error before any call is made, so before any session work. When the data path is
  missing, \<open>main\<close> first calls \<open>os.makedirs\<close> on it: if that raises the run ends there,
  and if it returns the path is a directory and the run goes on (to the profiler with
  \<open>--debug_stats\<close>, otherwise to \<open>run_commands\<close>).
\<close>

theorem data_path_check:
  "(fs (data_path a) = Other \<longrightarrow> main env fs a = (fs, [], Inl (NotAFolder (data_path a))))
   \<and> (fs (data_path a) = Missing \<longrightarrow>
        (\<exists>out rest. fst (snd (main env fs a)) = (MakeDirs (data_path a), out) # rest
           \<and> (out = Raised \<longrightarrow> rest = [] \<and> snd (snd (main env fs a)) = Inl (CallRaised (MakeDirs (data_path a))))
           \<and> (out = Returned \<longrightarrow> fst (main env fs a) (data_path a) = Folder
                \<and> (\<exists>out' rest'. rest =
                      (if debug_stats a then ProfilingStart else CreateEngine ''sqlite://'', out') # rest'))))"
proof (intro conjI impI)
  assume "fs (data_path a) = Other"
  then show "main env fs a = (fs, [], Inl (NotAFolder (data_path a)))"
    by (simp add: main_def path_exists_def path_isdir_def raise_def)
next
  let ?m = "MakeDirs (data_path a)"
  assume missing: "fs (data_path a) = Missing"
  show "\<exists>out rest. fst (snd (main env fs a)) = (?m, out) # rest
           \<and> (out = Raised \<longrightarrow> rest = [] \<and> snd (snd (main env fs a)) = Inl (CallRaised ?m))
           \<and> (out = Returned \<longrightarrow> fst (main env fs a) (data_path a) = Folder
                \<and> (\<exists>out' rest'. rest =
                      (if debug_stats a then ProfilingStart else CreateEngine ''sqlite://'', out') # rest'))"
  proof (cases "env [] ?m")
    case Raised
    with missing show ?thesis
      by (simp add: main_def path_exists_def invoke_def)
  next
    case Returned
    show ?thesis
    proof (cases "debug_stats a")
      case True
      show ?thesis
      proof (cases "env [(?m, Returned)] ProfilingStart")
        case Raised
        with missing \<open>env [] ?m = Returned\<close> True show ?thesis
          by (simp add: main_def path_exists_def invoke_def seq_def guarded_def)
      next
        case start: Returned
        obtain out rest r where
          "try_finally (run_commands env a) (guarded True (invoke env ProfilingFinish))
             [(?m, Returned), (ProfilingStart, Returned)]
           = ([(?m, Returned), (ProfilingStart, Returned)] @ (CreateEngine ''sqlite://'', out) # rest, r)"
          using profiled_run_first[of env a True ProfilingFinish "[(?m, Returned), (ProfilingStart, Returned)]"]
          by blast
        with missing \<open>env [] ?m = Returned\<close> True start show ?thesis
          by (simp add: main_def path_exists_def invoke_def seq_def guarded_def)
      qed
    next
      case False
      obtain out rest r where
        "try_finally (run_commands env a) (guarded False (invoke env ProfilingFinish)) [(?m, Returned)]
           = ([(?m, Returned)] @ (CreateEngine ''sqlite://'', out) # rest, r)"
        using profiled_run_first[of env a False ProfilingFinish "[(?m, Returned)]"] by blast
      with missing Returned False show ?thesis
        by (simp add: main_def path_exists_def invoke_def seq_def guarded_def skip_def)
    qed
  qed
qed

theorem data_path_check_witness:
  "empty_fs (data_path (example_args ''create'')) = Missing
   \<and> hd (fst (snd (main always_returns empty_fs (example_args ''create'')))) = (MakeDirs ''data'', Returned)
   \<and> fst (main always_returns empty_fs (example_args ''create'')) ''data'' = Folder
   \<and> (empty_fs(''data'' := Other)) (data_path (example_args ''create'')) = Other
   \<and> main always_returns (empty_fs(''data'' := Other)) (example_args ''create'')
       = (empty_fs(''data'' := Other), [], Inl (NotAFolder ''data''))"
  using data_path_check[of empty_fs "example_args ''create''" always_returns]
        data_path_check[of "empty_fs(''data'' := Other)" "example_args ''create''" always_returns]
  by (simp add: main_defs)

subsection \<open>Claims about the store\<close>

lemmas store_defs = store_after_def initial_store_def

lemma in_memory_engine [simp]: "in_memory ''sqlite://''"
  by (simp add: in_memory_def)

lemmas store_eval = store_defs run_defs old_db_def no_db_def

text \<open>
  \<open>committed_loads\<close> picks the load calls that returned and whose commit, the very next
  call, returned too.
\<close>

lemma committed_loads_iff:
  "e \<in> set (committed_loads evs) \<longleftrightarrow>
     (\<exists>pre post. evs = pre @ e # (Commit, Returned) # post \<and> is_load (fst e) \<and> snd e = Returned)"
proof (induction evs rule: committed_loads.induct)
  case (1 x y es)
  show ?case
  proof
    assume "e \<in> set (committed_loads (x # y # es))"
    then consider "e = x" "is_load (fst x)" "snd x = Returned" "y = (Commit, Returned)"
      | "e \<in> set (committed_loads (y # es))"
      by (auto split: if_splits)
    then show "\<exists>pre post. x # y # es = pre @ e # (Commit, Returned) # post \<and> is_load (fst e) \<and> snd e = Returned"
    proof cases
      case 1
      then have "x # y # es = [] @ e # (Commit, Returned) # es" by simp
      with 1 show ?thesis by blast
    next
      case 2
      with 1 obtain pre post where "y # es = pre @ e # (Commit, Returned) # post"
        "is_load (fst e)" "snd e = Returned" by blast
      then have "x # y # es = (x # pre) @ e # (Commit, Returned) # post" by simp
      with \<open>is_load (fst e)\<close> \<open>snd e = Returned\<close> show ?thesis by blast
    qed
  next
    assume "\<exists>pre post. x # y # es = pre @ e # (Commit, Returned) # post \<and> is_load (fst e) \<and> snd e = Returned"
    then obtain pre post where d: "x # y # es = pre @ e # (Commit, Returned) # post"
      and l: "is_load (fst e)" "snd e = Returned" by blast
    show "e \<in> set (committed_loads (x # y # es))"
    proof (cases pre)
      case Nil
      with d l show ?thesis by simp
    next
      case (Cons p pre')
      with d have "y # es = pre' @ e # (Commit, Returned) # post" by simp
      with l 1 have "e \<in> set (committed_loads (y # es))" by blast
      then show ?thesis by simp
    qed
  qed
qed (auto simp: Cons_eq_append_conv)

text \<open>
  C7. In every run each load phase that returns is followed at once by a commit, before
  any other phase; and whatever happens afterwards, the committed state of the store at
  the end of the run holds exactly the load phases that returned and were committed. A
  failure in a later phase (or in \<open>close\<close>) undoes none of them, and nothing of a phase
  that raised is committed.
\<close>

theorem phases_committed_in_turn:
  "loads_committed (run_events env a)
   \<and> committed (store_after d (run_events env a)) = committed_loads (run_events env a)"
  using run_events_possible[of env a]
  by (cases rule: phase_calls_cases[of a])
     (auto simp: enum store_defs)

theorem phases_committed_in_turn_witness:
  "run_result (fails_on (ReadCsv ''in.csv'')) (example_args ''import'') = Inl (CallRaised (ReadCsv ''in.csv''))
   \<and> loads_committed (run_events (fails_on (ReadCsv ''in.csv'')) (example_args ''import''))
   \<and> committed (store_after old_db (run_events (fails_on (ReadCsv ''in.csv'')) (example_args ''import'')))
       = [(ReadMtgjson ''data'' False, Returned)]"
  using phases_committed_in_turn[of "fails_on (ReadCsv ''in.csv'')" "example_args ''import''" old_db]
  by (simp add: store_eval)

text \<open>
  C8. Every run starts by creating an engine on the in-memory URL \<open>sqlite://\<close>. Once the
  session is set up, and before any phase, the store is empty; what the store holds during
  and after the run does not depend on any database file, and no database file is changed
  by the run. So nothing passes from one invocation to the next through the store.
\<close>

theorem store_is_per_run:
  "(\<exists>out rest. run_events env a = (CreateEngine ''sqlite://'', out) # rest)
   \<and> disk (store_after d (run_events env a)) = d
   \<and> committed (store_after d (run_events env a)) = committed (store_after d' (run_events env a))
   \<and> ((NewSession, Returned) \<in> set (run_events env a) \<longrightarrow>
        committed (store_after d (take 3 (run_events env a))) = []
        \<and> working (store_after d (take 3 (run_events env a))) = [])"
  using run_events_possible[of env a]
  by (cases rule: phase_calls_cases[of a])
     (auto simp: enum store_defs)

theorem store_is_per_run_witness:
  "(NewSession, Returned) \<in> set (run_events always_returns (example_args ''update''))
   \<and> committed (store_after old_db (take 3 (run_events always_returns (example_args ''update'')))) = []
   \<and> disk (store_after old_db (run_events always_returns (example_args ''update''))) ''sqlite://''
       = [(ReadCsv ''earlier.csv'', Returned)]
   \<and> committed (store_after old_db (run_events always_returns (example_args ''update'')))
       = [(ReadMtgjson ''data'' False, Returned), (ReadXlsx ''cards.xlsx'', Returned)]"
  using store_is_per_run[of always_returns "example_args ''update''" old_db no_db]
  by (simp add: store_eval)

end
